theory Spec2Isabelle
  imports Main
begin

section \<open>The task store of \<open>src/main.ts\<close>\<close>

text \<open>
  The program keeps two variables at module scope, \<open>todos\<close> (an array of \<open>Todo\<close>
  objects) and \<open>editingId\<close> (\<open>number | null\<close>), and mutates them from click handlers
  and from \<open>fetchTodos\<close>. Every handler is modelled as a function from the store to the
  store. What a handler reads from outside the store is a parameter: the \<open>data-id\<close> of
  the clicked button, what the DOM holds in front of the clicked \<open>.save-btn\<close>, the text
  of the input field, the value of \<open>Date.now()\<close> and the string returned by
  \<open>new Date().toLocaleString()\<close>. \<open>renderTodos\<close> rebuilds the DOM from the store and
  writes to neither variable; it is present in two places, where it decides what
  happens to the variables: in \<open>fetchTodos\<close>, where it can throw inside the \<open>try\<close>, and
  in the click handler of \<open>.save-btn\<close>, which reads the markup it produced.
\<close>

subsection \<open>Data\<close>

text \<open>
  \<open>interface Todo\<close>. The two optional properties are \<open>option\<close>s: \<open>None\<close> is an absent
  property. The field \<open>id\<close> is written \<open>id'\<close>, since \<open>id\<close> is the identity function of HOL.
  Identifiers are integers: \<open>Date.now()\<close> and the seed's identifiers are.
\<close>

record Todo =
  id' :: int
  title :: string
  completed :: bool
  completedTime :: "string option"
  modifiedTime :: "string option"

text \<open>What the two awaits of \<open>fetchTodos\<close> can throw: \<open>fetch\<close> rejects, or \<open>response.json()\<close> does.\<close>

datatype fetch_error = NetworkFailure | ParseFailure

text \<open>
  How the request ends. \<open>response.json()\<close> resolves with any JSON value, and the cast
  \<open>as Todo[]\<close> checks nothing. \<open>FetchOk\<close> is an array of objects of the shape of \<open>Todo\<close>.
  \<open>FetchIllTyped\<close> is a value on which \<open>renderTodos\<close> throws: a value that is not an array
  (\<open>todos.forEach\<close> is not a function) or an array with a \<open>null\<close> element (\<open>todo.completed\<close>
  of \<open>null\<close>). Other arrays, of values that are not \<open>null\<close> and lack the properties of
  \<open>Todo\<close>, are outside the model: the type \<open>Todo\<close> has no value for them.
\<close>

datatype fetch_result = FetchOk "Todo list" | FetchIllTyped | FetchErr fetch_error

text \<open>What the \<open>catch\<close> of \<open>fetchTodos\<close> receives and logs: an error of an await, or of the render.\<close>

datatype caught = Thrown fetch_error | RenderError

text \<open>
  The module's variables while \<open>todos\<close> holds a \<open>Todo[]\<close>, and the lines \<open>console.error\<close>
  has written (one per caught error, newest last).
\<close>

record store =
  todos :: "Todo list"
  editingId :: "int option"
  console :: "caught list"

text \<open>
  The module's variables in general: \<open>Typed\<close> when \<open>todos\<close> holds a \<open>Todo[]\<close>,
  \<open>Overwritten\<close> when it holds a fetched value that is none; the editing marker and the
  log are then the arguments.
\<close>

datatype page = Typed store | Overwritten "int option" "caught list"

text \<open>
  What the click handler of \<open>.save-btn\<close> finds at \<open>btnGroup.previousElementSibling\<close>:
  nothing (\<open>null\<close>), an element whose \<open>value\<close> is not a string, or an element whose
  \<open>value\<close> is the string given. Which of these depends on how the browser parsed the
  markup of \<open>renderTodos\<close>, which puts the title between the quotes of
  \<open>value="..."\<close> unescaped. A title without a double quote gives the input field
  in front of the button group. The title \<open>a"><span>\<close> ends the attribute and the tag
  and opens a \<open>span\<close>, the button group is parsed as the first element inside that
  \<open>span\<close>, and the handler finds nothing.
\<close>

datatype field = Missing | NotText | Text string

text \<open>The exception of a handler: reading a property of \<open>null\<close> or \<open>undefined\<close>.\<close>

datatype js_error = TypeError

definition init :: store where
  "init = \<lparr>todos = [], editingId = None, console = []\<rparr>"

subsection \<open>\<open>String.prototype.trim\<close>\<close>

text \<open>
  \<open>trim\<close> removes white space and line terminators from both ends. A \<open>char\<close> has
  eight bits and stands for the code unit of that value, so the strings of the model
  are those of code units below 256. The white space and line terminators of
  ECMAScript in that range are TAB, LF, VT, FF, CR, SP and NBSP; the others (U+1680,
  U+2000 to U+200A, U+2028, U+2029, U+202F, U+205F, U+3000, U+FEFF) are outside it.
  The handlers look at a string only to ask whether it is blank.
\<close>

definition isWhiteSpace :: "char \<Rightarrow> bool" where
  "isWhiteSpace c =
     (c \<in> set [CHR 0x09, CHR 0x0A, CHR 0x0B, CHR 0x0C, CHR 0x0D, CHR 0x20, CHR 0xA0])"

definition trim :: "string \<Rightarrow> string" where
  "trim s = rev (dropWhile isWhiteSpace (rev (dropWhile isWhiteSpace s)))"

text \<open>\<open>!text.trim()\<close>: the empty string is the only falsy string.\<close>

definition blank :: "string \<Rightarrow> bool" where
  "blank s = (trim s = [])"

subsection \<open>The handlers\<close>

text \<open>
  \<open>todos.find(p)\<close> returns a reference to the first element satisfying \<open>p\<close>, and the
  handlers assign to its properties: the first such element of the array changes, in
  place. \<open>mutate_found\<close> is that write.
\<close>

fun mutate_found :: "(Todo \<Rightarrow> bool) \<Rightarrow> (Todo \<Rightarrow> Todo) \<Rightarrow> Todo list \<Rightarrow> Todo list" where
  "mutate_found p f [] = []"
| "mutate_found p f (t # ts) = (if p t then f t # ts else t # mutate_found p f ts)"

text \<open>The click handler of \<open>addBtn\<close>; \<open>now\<close> is \<open>Date.now()\<close>, \<open>stamp\<close> is \<open>new Date().toLocaleString()\<close>.\<close>

definition addBtn_click :: "string \<Rightarrow> int \<Rightarrow> string \<Rightarrow> store \<Rightarrow> store" where
  "addBtn_click text now stamp s =
     (if blank text then s
      else s\<lparr>todos := todos s @
             [\<lparr>id' = now, title = text, completed = False,
               completedTime = None, modifiedTime = Some stamp\<rparr>]\<rparr>)"

text \<open>The click handler of a \<open>.delete-btn\<close>.\<close>

definition deleteBtn_click :: "int \<Rightarrow> store \<Rightarrow> store" where
  "deleteBtn_click idToDelete s =
     s\<lparr>todos := filter (\<lambda>todo. id' todo \<noteq> idToDelete) (todos s)\<rparr>"

text \<open>The click handler of a \<open>.change-btn\<close>.\<close>

definition changeBtn_click :: "int \<Rightarrow> store \<Rightarrow> store" where
  "changeBtn_click i s = s\<lparr>editingId := Some i\<rparr>"

text \<open>
  The click handler of a \<open>.save-btn\<close>, from \<open>const newText = input.value\<close> on, where
  \<open>newText\<close> is a string. The assignment \<open>editingId = null\<close> comes after the \<open>if\<close>, on
  every path.
\<close>

definition save_text :: "int \<Rightarrow> string \<Rightarrow> string \<Rightarrow> store \<Rightarrow> store" where
  "save_text i newText stamp s =
     (let s1 = (case find (\<lambda>t. id' t = i) (todos s) of
                  None \<Rightarrow> s
                | Some todo \<Rightarrow>
                    if \<not> blank newText
                    then s\<lparr>todos := mutate_found (\<lambda>t. id' t = i)
                            (\<lambda>t. t\<lparr>title := newText, completedTime := None,
                                   completed := False, modifiedTime := Some stamp\<rparr>)
                            (todos s)\<rparr>
                    else s)
      in s1\<lparr>editingId := None\<rparr>)"

text \<open>
  The click handler of a \<open>.save-btn\<close>. With nothing in front of the button group,
  \<open>input.value\<close> throws before any write. With a \<open>value\<close> that is not a string,
  \<open>newText.trim()\<close> throws when \<open>todos.find\<close> has found a record; when it has found
  none, \<open>&&\<close> does not evaluate it and the handler goes on to \<open>editingId = null\<close>.
\<close>

definition saveBtn_click :: "int \<Rightarrow> field \<Rightarrow> string \<Rightarrow> store \<Rightarrow> js_error + store" where
  "saveBtn_click i input stamp s =
     (case input of
        Missing \<Rightarrow> Inl TypeError
      | NotText \<Rightarrow>
          (case find (\<lambda>t. id' t = i) (todos s) of
             None \<Rightarrow> Inr (s\<lparr>editingId := None\<rparr>)
           | Some todo \<Rightarrow> Inl TypeError)
      | Text newText \<Rightarrow> Inr (save_text i newText stamp s))"

text \<open>The click handler of a \<open>.cancel-btn\<close>.\<close>

definition cancelBtn_click :: "store \<Rightarrow> store" where
  "cancelBtn_click s = s\<lparr>editingId := None\<rparr>"

text \<open>The click handler of a \<open>.complete-btn\<close>; \<open>timeString\<close> is \<open>nowTime.toLocaleString()\<close>.\<close>

definition completeBtn_click :: "int \<Rightarrow> string \<Rightarrow> store \<Rightarrow> store" where
  "completeBtn_click idToComplete timeString s =
     (case find (\<lambda>t. id' t = idToComplete) (todos s) of
        None \<Rightarrow> s
      | Some todo \<Rightarrow>
          if completed todo then s
          else s\<lparr>todos := mutate_found (\<lambda>t. id' t = idToComplete)
                  (\<lambda>t. t\<lparr>completed := True, completedTime := Some timeString\<rparr>)
                  (todos s)\<rparr>)"

text \<open>
  \<open>fetchTodos\<close>, given how the request ended. Both awaits throw before \<open>todos = data\<close>
  is reached. \<open>renderTodos()\<close> is called inside the \<open>try\<close> after \<open>todos = data\<close>: when it
  throws, the fetched value is already in \<open>todos\<close>. The \<open>catch\<close> only logs.
\<close>

definition fetchTodos :: "fetch_result \<Rightarrow> store \<Rightarrow> page" where
  "fetchTodos r s =
     (case r of
        FetchOk data \<Rightarrow> Typed (s\<lparr>todos := data\<rparr>)
      | FetchIllTyped \<Rightarrow> Overwritten (editingId s) (console s @ [RenderError])
      | FetchErr e \<Rightarrow> Typed (s\<lparr>console := console s @ [Thrown e]\<rparr>))"

subsection \<open>Runs\<close>

text \<open>
  Everything that can happen to the variables after the module is loaded, and the
  page after a sequence of such events. The fetch is asynchronous: its event may come
  after clicks. An exception of a click handler is caught by nobody: the variables
  stay as the handler left them, which for \<open>.save-btn\<close> is as they were.
\<close>

datatype event =
    Add string int string
  | Delete int
  | Change int
  | Save int field string
  | Cancel
  | Complete int string
  | Fetched fetch_result

fun step :: "event \<Rightarrow> store \<Rightarrow> page" where
  "step (Add text now stamp) s = Typed (addBtn_click text now stamp s)"
| "step (Delete i) s = Typed (deleteBtn_click i s)"
| "step (Change i) s = Typed (changeBtn_click i s)"
| "step (Save i input stamp) s =
     Typed (case saveBtn_click i input stamp s of Inl err \<Rightarrow> s | Inr s' \<Rightarrow> s')"
| "step Cancel s = Typed (cancelBtn_click s)"
| "step (Complete i timeString) s = Typed (completeBtn_click i timeString s)"
| "step (Fetched r) s = fetchTodos r s"

text \<open>
  The render that threw in \<open>fetchTodos\<close> had emptied the list and did not reach
  \<open>bindEvents\<close>, so on an overwritten page only \<open>addBtn\<close> has a handler. Its click
  throws at \<open>todos.push\<close> (no array) or pushes and throws in the render (an array with
  \<open>null\<close>): \<open>todos\<close> still holds no \<open>Todo[]\<close>, and the marker and the log are as they were.
\<close>

fun run :: "event list \<Rightarrow> page \<Rightarrow> page" where
  "run [] p = p"
| "run (e # es) (Typed s) = run es (step e s)"
| "run (e # es) (Overwritten marker lines) = Overwritten marker lines"

subsection \<open>Predicates of the specification\<close>

text \<open>
  The endpoint \<open>jsonplaceholder.typicode.com/todos\<close> returns records with \<open>id\<close>,
  \<open>title\<close> and \<open>completed\<close> (and a \<open>userId\<close> the program never reads): neither
  timestamp is present. \<open>seed_ok\<close> says so of a fetch event, and holds of every other
  event.
\<close>

definition seed_shape :: "Todo \<Rightarrow> bool" where
  "seed_shape t = (completedTime t = None \<and> modifiedTime t = None)"

fun seed_ok :: "event \<Rightarrow> bool" where
  "seed_ok (Fetched (FetchOk data)) = list_all seed_shape data"
| "seed_ok e = True"

text \<open>A completion timestamp is present only on a completed record.\<close>

definition completion_ok :: "Todo \<Rightarrow> bool" where
  "completion_ok t = (completedTime t \<noteq> None \<longrightarrow> completed t)"

text \<open>The records an event fetches are so; holds of every event that fetches none.\<close>

fun fetched_completion_ok :: "event \<Rightarrow> bool" where
  "fetched_completion_ok (Fetched (FetchOk data)) = list_all completion_ok data"
| "fetched_completion_ok e = True"

text \<open>
  The events that write \<open>st\<close> as the modified timestamp of a record with the
  identifier of \<open>r\<close>: a click on \<open>addBtn\<close> creating it, or a click on its
  \<open>.save-btn\<close>, each with text that is not blank.
\<close>

fun stamped_by :: "event \<Rightarrow> Todo \<Rightarrow> string \<Rightarrow> bool" where
  "stamped_by (Add text now stamp) r st = (\<not> blank text \<and> now = id' r \<and> stamp = st)"
| "stamped_by (Save i (Text newText) stamp) r st =
     (\<not> blank newText \<and> i = id' r \<and> stamp = st)"
| "stamped_by e r st = False"

subsection \<open>The store of the specification's scenarios\<close>

text \<open>\<open>store = [{id:1, title:"A", completed:false}]\<close>, and the same with its record in edit mode.\<close>

definition taskA :: Todo where
  "taskA = \<lparr>id' = 1, title = ''A'', completed = False,
             completedTime = None, modifiedTime = None\<rparr>"

definition storeA :: store where
  "storeA = \<lparr>todos = [taskA], editingId = None, console = []\<rparr>"

definition editingA :: store where
  "editingA = \<lparr>todos = [taskA], editingId = Some 1, console = []\<rparr>"

text \<open>A store of two records, the second completed.\<close>

definition taskB :: Todo where
  "taskB = \<lparr>id' = 2, title = ''B'', completed = True,
             completedTime = Some ''2023/11/14 09:00:00'', modifiedTime = None\<rparr>"

definition storeAB :: store where
  "storeAB = \<lparr>todos = [taskA, taskB], editingId = Some 1, console = []\<rparr>"

text \<open>
  A store with one record, in edit mode, whose title is \<open>a"><span>\<close> (\<open>CHR 0x22\<close> is the
  double quote): what two clicks give, on \<open>addBtn\<close> with this text in the input and on
  the \<open>.change-btn\<close> of the new record.
\<close>

definition markupTask :: Todo where
  "markupTask = \<lparr>id' = 1700000000000, title = ''a'' @ [CHR 0x22] @ ''><span>'',
                  completed = False, completedTime = None,
                  modifiedTime = Some ''2023/11/14 22:13:20''\<rparr>"

definition markupStore :: store where
  "markupStore = \<lparr>todos = [markupTask], editingId = Some 1700000000000, console = []\<rparr>"

text \<open>A fetched record with a completion timestamp that is not completed.\<close>

definition staleTask :: Todo where
  "staleTask = \<lparr>id' = 1, title = ''A'', completed = False,
                 completedTime = Some ''2023/11/14 09:00:00'', modifiedTime = None\<rparr>"

section \<open>Properties\<close>

lemma dropWhile_all_iff: "(\<forall>x \<in> set (dropWhile p xs). p x) \<longleftrightarrow> (\<forall>x \<in> set xs. p x)"
proof
  assume rest: "\<forall>x \<in> set (dropWhile p xs). p x"
  have "dropWhile p xs = []"
  proof (cases "dropWhile p xs")
    case Nil
    then show ?thesis .
  next
    case (Cons y ys)
    with hd_dropWhile [of p xs] have "\<not> p y" by simp
    with rest Cons show ?thesis by simp
  qed
  then show "\<forall>x \<in> set xs. p x" by simp
next
  assume "\<forall>x \<in> set xs. p x"
  then show "\<forall>x \<in> set (dropWhile p xs). p x"
    by (blast dest: set_dropWhileD)
qed

lemma blank_iff: "blank s \<longleftrightarrow> (\<forall>c \<in> set s. isWhiteSpace c)"
  by (simp add: blank_def trim_def dropWhile_all_iff)

subsection \<open>The first match of \<open>find\<close> and the write to it\<close>

lemma find_first_split:
  "find p xs = Some r \<Longrightarrow> \<exists>ys zs. xs = ys @ r # zs \<and> p r \<and> (\<forall>y \<in> set ys. \<not> p y)"
proof (induction xs)
  case Nil
  then show ?case by simp
next
  case (Cons x xs)
  show ?case
  proof (cases "p x")
    case True
    with Cons.prems have "x = r" by simp
    with True have "x # xs = [] @ r # xs \<and> p r \<and> (\<forall>y \<in> set []. \<not> p y)" by simp
    then show ?thesis by blast
  next
    case False
    with Cons.prems have "find p xs = Some r" by simp
    with Cons.IH obtain ys zs where "xs = ys @ r # zs" "p r" "\<forall>y \<in> set ys. \<not> p y" by blast
    with False have "x # xs = (x # ys) @ r # zs \<and> p r \<and> (\<forall>y \<in> set (x # ys). \<not> p y)" by simp
    then show ?thesis by blast
  qed
qed

lemma find_split_eq:
  "(\<forall>y \<in> set ys. \<not> p y) \<Longrightarrow> p r \<Longrightarrow> find p (ys @ r # zs) = Some r"
  by (induction ys) auto

lemma find_None_set: "find p xs = None \<longleftrightarrow> (\<forall>x \<in> set xs. \<not> p x)"
  by (induction xs) auto

lemma mutate_found_split:
  "(\<forall>y \<in> set ys. \<not> p y) \<Longrightarrow> p r \<Longrightarrow> mutate_found p f (ys @ r # zs) = ys @ f r # zs"
  by (induction ys) auto

lemma mutate_found_absent: "(\<forall>x \<in> set xs. \<not> p x) \<Longrightarrow> mutate_found p f xs = xs"
  by (induction xs) auto

lemma length_mutate_found: "length (mutate_found p f xs) = length xs"
  by (induction xs) auto

lemma map_id_mutate_found:
  "(\<And>t. id' (f t) = id' t) \<Longrightarrow> map id' (mutate_found p f xs) = map id' xs"
  by (induction xs) auto

lemma set_mutate_found:
  "x \<in> set (mutate_found p f xs) \<Longrightarrow> x \<in> set xs \<or> (\<exists>y \<in> set xs. p y \<and> x = f y)"
  by (induction xs) (auto split: if_splits)

lemma nth_mutate_found:
  "k < length xs \<Longrightarrow> mutate_found p f xs ! k \<noteq> xs ! k \<Longrightarrow> p (xs ! k) \<and> (\<forall>j < k. \<not> p (xs ! j))"
proof (induction xs arbitrary: k)
  case Nil
  then show ?case by simp
next
  case (Cons x xs)
  show ?case
  proof (cases "p x")
    case True
    with Cons.prems have "k = 0" by (cases k) auto
    with True show ?thesis by simp
  next
    case False
    with Cons.prems obtain k' where k: "k = Suc k'" by (cases k) auto
    with Cons.prems False have "k' < length xs" "mutate_found p f xs ! k' \<noteq> xs ! k'" by auto
    with Cons.IH have IH: "p (xs ! k') \<and> (\<forall>j < k'. \<not> p (xs ! j))" by blast
    have "\<forall>j < Suc k'. \<not> p ((x # xs) ! j)"
    proof (intro allI impI)
      fix j assume "j < Suc k'"
      then show "\<not> p ((x # xs) ! j)" using False IH by (cases j) auto
    qed
    with IH k show ?thesis by simp
  qed
qed

lemma distinct_ids_unique:
  "distinct (map id' xs) \<Longrightarrow> r \<in> set xs \<Longrightarrow> r0 \<in> set xs \<Longrightarrow> id' r = id' r0 \<Longrightarrow> r0 = r"
  by (metis distinct_map inj_onD)

subsection \<open>The operations\<close>

text \<open>
  C6. Deleting by an identifier keeps exactly the records with another identifier, in
  their order; the editing marker and the log are untouched, and when no record has
  the identifier the store is the same.
\<close>

theorem delete_removes_exactly:
  "todos (deleteBtn_click i s) = filter (\<lambda>t. id' t \<noteq> i) (todos s)
   \<and> editingId (deleteBtn_click i s) = editingId s
   \<and> console (deleteBtn_click i s) = console s
   \<and> ((\<forall>t \<in> set (todos s). id' t \<noteq> i) \<longrightarrow> deleteBtn_click i s = s)"
  by (simp add: deleteBtn_click_def)

theorem delete_removes_exactly_witness:
  "7 \<notin> id' ` set (todos storeA) \<and> deleteBtn_click 7 storeA = storeA
   \<and> todos (deleteBtn_click 1 storeA) = []"
  using delete_removes_exactly [of 7 storeA] delete_removes_exactly [of 1 storeA]
  by (simp add: storeA_def taskA_def)

text \<open>
  C7. A click on \<open>addBtn\<close> with text that is not blank appends one record, not
  completed and with its modified timestamp set; with blank text the store is the
  same.
\<close>

theorem add_appends_one:
  "(\<not> blank text \<longrightarrow>
      todos (addBtn_click text now stamp s) =
        todos s @ [\<lparr>id' = now, title = text, completed = False,
                    completedTime = None, modifiedTime = Some stamp\<rparr>]
      \<and> length (todos (addBtn_click text now stamp s)) = length (todos s) + 1
      \<and> completed (last (todos (addBtn_click text now stamp s))) = False
      \<and> modifiedTime (last (todos (addBtn_click text now stamp s))) \<noteq> None)
   \<and> (blank text \<longrightarrow> addBtn_click text now stamp s = s)"
  by (simp add: addBtn_click_def)

theorem add_appends_one_witness:
  "\<not> blank ''buy milk'' \<and> blank ''  ''
   \<and> todos (addBtn_click ''buy milk'' 1700000000000 ''2023/11/14 22:13:20'' init) =
       [\<lparr>id' = 1700000000000, title = ''buy milk'', completed = False,
         completedTime = None, modifiedTime = Some ''2023/11/14 22:13:20''\<rparr>]
   \<and> addBtn_click ''  '' 1700000000000 ''2023/11/14 22:13:20'' init = init"
  using add_appends_one [of "''buy milk''" 1700000000000 "''2023/11/14 22:13:20''" init]
    add_appends_one [of "''  ''" 1700000000000 "''2023/11/14 22:13:20''" init]
  by (simp add: blank_def trim_def isWhiteSpace_def init_def)

text \<open>
  What the click handler of \<open>.save-btn\<close> can do to the records, and the stores a click
  on \<open>.save-btn\<close> can leave.
\<close>

lemma todos_save_cases:
  "todos (save_text i newText stamp s) = todos s
   \<or> todos (save_text i newText stamp s) =
       mutate_found (\<lambda>t. id' t = i)
         (\<lambda>t. t\<lparr>title := newText, completedTime := None,
                completed := False, modifiedTime := Some stamp\<rparr>) (todos s)"
  by (simp add: save_text_def split: option.splits)

lemma step_save_cases:
  assumes "step (Save i input stamp) s = Typed s'"
  shows "s' = s \<or> s' = s\<lparr>editingId := None\<rparr>
     \<or> (\<exists>newText. input = Text newText \<and> s' = save_text i newText stamp s)"
  using assms by (cases input) (auto simp: saveBtn_click_def split: option.splits)

text \<open>
  C1, as the code has it. A click on \<open>.save-btn\<close> that reads blank text from the edit
  field leaves every record as it was and clears the editing marker: the record
  leaves edit mode.
\<close>

theorem saveEdit_blank_keeps_records:
  "blank newText \<Longrightarrow>
     saveBtn_click i (Text newText) stamp s = Inr (s\<lparr>editingId := None\<rparr>)
     \<and> step (Save i (Text newText) stamp) s = Typed (s\<lparr>editingId := None\<rparr>)"
  by (simp add: saveBtn_click_def save_text_def split: option.splits)

theorem saveEdit_blank_keeps_records_witness:
  "blank ''  ''
   \<and> saveBtn_click 1 (Text ''  '') ''2023/11/14 22:13:20'' editingA = Inr storeA
   \<and> step (Save 1 (Text ''  '') ''2023/11/14 22:13:20'') editingA = Typed storeA"
  using saveEdit_blank_keeps_records [of "''  ''" 1 "''2023/11/14 22:13:20''" editingA]
  by (simp add: blank_def trim_def isWhiteSpace_def editingA_def storeA_def)

text \<open>
  C1, as the specification has it, fails: with the record of identifier 1 in edit mode,
  saving blank text is not a no-op, the editing marker goes from 1 to none.
\<close>

theorem saveEdit_blank_clears_marker:
  "blank ''  '' \<and> editingId editingA = Some 1
   \<and> saveBtn_click 1 (Text ''  '') ''2023/11/14 22:13:20'' editingA = Inr storeA
   \<and> editingId storeA = None
   \<and> storeA \<noteq> editingA"
  by (simp add: saveBtn_click_def save_text_def blank_def trim_def isWhiteSpace_def
      editingA_def storeA_def taskA_def)

text \<open>
  A click on the \<open>.save-btn\<close> of \<open>i\<close> that reads from the edit field a text that is not
  blank, in a store with a record of identifier \<open>i\<close>, writes to the first such record
  (the only one, when identifiers are distinct): the title is the new text, the
  record is not completed, its completion timestamp is absent and its modified
  timestamp is set. Every other record stays, and the editing marker is cleared.
\<close>

lemma save_text_nonblank:
  assumes "r \<in> set (todos s)" and "id' r = i" and "\<not> blank newTitle"
  shows "\<exists>xs r0 ys.
           todos s = xs @ r0 # ys \<and> id' r0 = i \<and> (\<forall>x \<in> set xs. id' x \<noteq> i)
           \<and> (distinct (map id' (todos s)) \<longrightarrow> r0 = r)
           \<and> saveBtn_click i (Text newTitle) stamp s =
               Inr (s\<lparr>todos := xs @ r0\<lparr>title := newTitle, completed := False,
                                   completedTime := None, modifiedTime := Some stamp\<rparr> # ys,
                 editingId := None\<rparr>)"
proof -
  from assms(1,2) have "find (\<lambda>t. id' t = i) (todos s) \<noteq> None"
    by (auto simp: find_None_set)
  then obtain r0 where f: "find (\<lambda>t. id' t = i) (todos s) = Some r0" by blast
  from find_first_split [OF f] obtain xs ys
    where split: "todos s = xs @ r0 # ys" "id' r0 = i" "\<forall>x \<in> set xs. id' x \<noteq> i"
    by blast
  have uniq: "distinct (map id' (todos s)) \<longrightarrow> r0 = r"
    using distinct_ids_unique [of "todos s" r r0] assms(1,2) split by auto
  have "mutate_found (\<lambda>t. id' t = i)
          (\<lambda>t. t\<lparr>title := newTitle, completedTime := None,
                 completed := False, modifiedTime := Some stamp\<rparr>) (todos s)
        = xs @ r0\<lparr>title := newTitle, completedTime := None,
                   completed := False, modifiedTime := Some stamp\<rparr> # ys"
    using split by (simp add: mutate_found_split)
  with f assms(3) have "saveBtn_click i (Text newTitle) stamp s =
      Inr (s\<lparr>todos := xs @ r0\<lparr>title := newTitle, completed := False,
                          completedTime := None, modifiedTime := Some stamp\<rparr> # ys,
        editingId := None\<rparr>)"
    by (simp add: saveBtn_click_def save_text_def)
  with split uniq show ?thesis by blast
qed

text \<open>
  C4. Two clicks give a store whose one record has the title \<open>a"><span>\<close> and is in
  edit mode. In the markup of \<open>renderTodos\<close> for it the button group is not preceded by
  the edit field, so the click on \<open>.save-btn\<close> finds nothing to read, whatever was
  typed: the handler throws before any write, the title stays and the record
  stays in edit mode.
\<close>

theorem save_click_aborts_on_markup_title:
  "run [Add (''a'' @ [CHR 0x22] @ ''><span>'') 1700000000000 ''2023/11/14 22:13:20'',
        Change 1700000000000] (Typed init) = Typed markupStore
   \<and> saveBtn_click 1700000000000 Missing ''2023/11/14 22:14:00'' markupStore = Inl TypeError
   \<and> step (Save 1700000000000 Missing ''2023/11/14 22:14:00'') markupStore = Typed markupStore
   \<and> title (hd (todos markupStore)) = ''a'' @ [CHR 0x22] @ ''><span>''
   \<and> editingId markupStore = Some 1700000000000"
  by (simp add: init_def addBtn_click_def changeBtn_click_def saveBtn_click_def
      markupStore_def markupTask_def blank_def trim_def isWhiteSpace_def)

text \<open>
  C5. In a store with a record of identifier \<open>i\<close>, a click on the \<open>.complete-btn\<close> of
  \<open>i\<close> finds the first such record (the only one, when identifiers are distinct). If
  it is not completed, it becomes completed and gets the completion timestamp; if it
  is completed, the store is the same. A second click changes nothing, whatever the
  time: the completion timestamp of the first click stays.
\<close>

theorem complete_idempotent:
  assumes "r \<in> set (todos s)" and "id' r = i"
  shows "\<exists>xs r0 ys.
           todos s = xs @ r0 # ys \<and> id' r0 = i \<and> (\<forall>x \<in> set xs. id' x \<noteq> i)
           \<and> (distinct (map id' (todos s)) \<longrightarrow> r0 = r)
           \<and> (\<not> completed r0 \<longrightarrow>
                completeBtn_click i timeString s =
                  s\<lparr>todos := xs @ r0\<lparr>completed := True,
                                      completedTime := Some timeString\<rparr> # ys\<rparr>)
           \<and> (completed r0 \<longrightarrow> completeBtn_click i timeString s = s)
           \<and> completeBtn_click i later (completeBtn_click i timeString s) =
               completeBtn_click i timeString s"
proof -
  let ?p = "\<lambda>t. id' t = i"
  let ?f = "\<lambda>t. t\<lparr>completed := True, completedTime := Some timeString\<rparr>"
  from assms have "find ?p (todos s) \<noteq> None"
    by (auto simp: find_None_set)
  then obtain r0 where f: "find ?p (todos s) = Some r0" by blast
  from find_first_split [OF f] obtain xs ys
    where split: "todos s = xs @ r0 # ys" "id' r0 = i" "\<forall>x \<in> set xs. id' x \<noteq> i"
    by blast
  have uniq: "distinct (map id' (todos s)) \<longrightarrow> r0 = r"
    using distinct_ids_unique [of "todos s" r r0] assms split by auto
  have already: "completed r0 \<longrightarrow> completeBtn_click i timeString s = s"
    using f by (simp add: completeBtn_click_def)
  have wr: "mutate_found ?p ?f (todos s) = xs @ ?f r0 # ys"
    using split by (simp add: mutate_found_split)
  have fresh: "\<not> completed r0 \<longrightarrow>
      completeBtn_click i timeString s = s\<lparr>todos := xs @ ?f r0 # ys\<rparr>"
    using f wr by (simp add: completeBtn_click_def)
  have again: "completeBtn_click i later (completeBtn_click i timeString s) =
      completeBtn_click i timeString s"
  proof (cases "completed r0")
    case True
    with f show ?thesis by (simp add: completeBtn_click_def)
  next
    case False
    with fresh have s': "completeBtn_click i timeString s = s\<lparr>todos := xs @ ?f r0 # ys\<rparr>"
      by blast
    have "find ?p (xs @ ?f r0 # ys) = Some (?f r0)"
      using split by (intro find_split_eq) simp_all
    then have "completeBtn_click i later (s\<lparr>todos := xs @ ?f r0 # ys\<rparr>) =
        s\<lparr>todos := xs @ ?f r0 # ys\<rparr>"
      by (simp add: completeBtn_click_def)
    with s' show ?thesis by simp
  qed
  from split uniq already fresh again show ?thesis by blast
qed

theorem complete_idempotent_witness:
  "taskA \<in> set (todos storeA) \<and> id' taskA = 1
   \<and> completeBtn_click 1 ''2023/11/14 22:13:20'' storeA =
       \<lparr>todos = [\<lparr>id' = 1, title = ''A'', completed = True,
                  completedTime = Some ''2023/11/14 22:13:20'', modifiedTime = None\<rparr>],
        editingId = None, console = []\<rparr>
   \<and> completeBtn_click 1 ''2023/11/15 08:00:00''
        (completeBtn_click 1 ''2023/11/14 22:13:20'' storeA) =
       completeBtn_click 1 ''2023/11/14 22:13:20'' storeA"
proof -
  have h: "taskA \<in> set (todos storeA)" "id' taskA = 1"
    by (simp_all add: storeA_def taskA_def)
  from complete_idempotent [OF h, of "''2023/11/14 22:13:20''" "''2023/11/15 08:00:00''"]
  obtain xs r0 ys where
    split: "todos storeA = xs @ r0 # ys"
    and fresh: "\<not> completed r0 \<longrightarrow>
      completeBtn_click 1 ''2023/11/14 22:13:20'' storeA =
        storeA\<lparr>todos := xs @ r0\<lparr>completed := True,
                     completedTime := Some ''2023/11/14 22:13:20''\<rparr> # ys\<rparr>"
    and again: "completeBtn_click 1 ''2023/11/15 08:00:00''
        (completeBtn_click 1 ''2023/11/14 22:13:20'' storeA) =
       completeBtn_click 1 ''2023/11/14 22:13:20'' storeA"
    by blast
  from split have "xs = [] \<and> r0 = taskA \<and> ys = []"
    by (cases xs) (simp_all add: storeA_def)
  with fresh have "completeBtn_click 1 ''2023/11/14 22:13:20'' storeA =
       \<lparr>todos = [\<lparr>id' = 1, title = ''A'', completed = True,
                  completedTime = Some ''2023/11/14 22:13:20'', modifiedTime = None\<rparr>],
        editingId = None, console = []\<rparr>"
    by (simp add: storeA_def taskA_def)
  with h again show ?thesis by simp
qed

text \<open>
  What a write to the first record of identifier \<open>i\<close> leaves alone, when the write
  keeps the identifier.
\<close>

lemma mutate_found_frame:
  assumes "\<And>t. id' (f t) = id' t"
  shows "length (mutate_found (\<lambda>t. id' t = i) f xs) = length xs
     \<and> map id' (mutate_found (\<lambda>t. id' t = i) f xs) = map id' xs
     \<and> (\<forall>k < length xs. id' (xs ! k) \<noteq> i \<longrightarrow> mutate_found (\<lambda>t. id' t = i) f xs ! k = xs ! k)
     \<and> (\<forall>k < length xs. mutate_found (\<lambda>t. id' t = i) f xs ! k \<noteq> xs ! k \<longrightarrow>
           id' (xs ! k) = i \<and> (\<forall>j < k. id' (xs ! j) \<noteq> i))"
  using assms nth_mutate_found [of _ xs "\<lambda>t. id' t = i" f]
  by (auto simp: length_mutate_found map_id_mutate_found)

lemma todos_complete_cases:
  "todos (completeBtn_click i timeString s) = todos s
   \<or> todos (completeBtn_click i timeString s) =
       mutate_found (\<lambda>t. id' t = i)
         (\<lambda>t. t\<lparr>completed := True, completedTime := Some timeString\<rparr>) (todos s)"
  by (simp add: completeBtn_click_def split: option.splits)

text \<open>
  C10. A click on a \<open>.complete-btn\<close> or a \<open>.save-btn\<close> of \<open>i\<close>, whatever the latter finds
  in front of its button group, keeps the number of records and their identifiers,
  position by position; a record with another identifier keeps all its fields; and
  a position whose record changed holds the first record of identifier \<open>i\<close>.
\<close>

theorem complete_save_frame:
  assumes "s' = completeBtn_click i stamp s \<or> step (Save i input stamp) s = Typed s'"
  shows "length (todos s') = length (todos s)
     \<and> map id' (todos s') = map id' (todos s)
     \<and> (\<forall>k < length (todos s). id' (todos s ! k) \<noteq> i \<longrightarrow> todos s' ! k = todos s ! k)
     \<and> (\<forall>k < length (todos s). todos s' ! k \<noteq> todos s ! k \<longrightarrow>
           id' (todos s ! k) = i \<and> (\<forall>j < k. id' (todos s ! j) \<noteq> i))"
proof -
  let ?c = "\<lambda>t. t\<lparr>completed := True, completedTime := Some stamp\<rparr>"
  let ?e = "\<lambda>newText t. t\<lparr>title := newText, completedTime := None,
                completed := False, modifiedTime := Some stamp\<rparr>"
  have "todos s' = todos s
      \<or> todos s' = mutate_found (\<lambda>t. id' t = i) ?c (todos s)
      \<or> (\<exists>newText. todos s' = mutate_found (\<lambda>t. id' t = i) (?e newText) (todos s))"
    using assms
  proof
    assume "s' = completeBtn_click i stamp s"
    with todos_complete_cases [of i stamp s] show ?thesis by blast
  next
    assume "step (Save i input stamp) s = Typed s'"
    from step_save_cases [OF this] consider "todos s' = todos s"
      | newText where "s' = save_text i newText stamp s"
      by auto
    then show ?thesis
    proof cases
      case 1
      then show ?thesis by blast
    next
      case 2
      with todos_save_cases [of i newText stamp s] show ?thesis by blast
    qed
  qed
  then consider "todos s' = todos s"
    | "todos s' = mutate_found (\<lambda>t. id' t = i) ?c (todos s)"
    | newText where "todos s' = mutate_found (\<lambda>t. id' t = i) (?e newText) (todos s)"
    by blast
  then show ?thesis
  proof cases
    case 1
    show ?thesis unfolding 1 by simp
  next
    case 2
    show ?thesis unfolding 2 by (rule mutate_found_frame) simp
  next
    case 3
    show ?thesis unfolding 3 by (rule mutate_found_frame) simp
  qed
qed

theorem complete_save_frame_witness:
  "step (Save 1 (Text ''C'') ''2023/11/14 22:13:20'') storeAB =
     Typed (save_text 1 ''C'' ''2023/11/14 22:13:20'' storeAB)
   \<and> length (todos (save_text 1 ''C'' ''2023/11/14 22:13:20'' storeAB)) = 2
   \<and> map id' (todos (save_text 1 ''C'' ''2023/11/14 22:13:20'' storeAB)) = [1, 2]
   \<and> todos (save_text 1 ''C'' ''2023/11/14 22:13:20'' storeAB) ! 1 = taskB"
proof -
  let ?s' = "save_text 1 ''C'' ''2023/11/14 22:13:20'' storeAB"
  have st: "step (Save 1 (Text ''C'') ''2023/11/14 22:13:20'') storeAB = Typed ?s'"
    by (simp add: saveBtn_click_def)
  then have h: "?s' = completeBtn_click 1 ''2023/11/14 22:13:20'' storeAB
      \<or> step (Save 1 (Text ''C'') ''2023/11/14 22:13:20'') storeAB = Typed ?s'"
    by (rule disjI2)
  note frame = complete_save_frame [OF h]
  have len: "length (todos ?s') = length (todos storeAB)"
    using frame by (rule conjunct1)
  have ids: "map id' (todos ?s') = map id' (todos storeAB)"
    using frame [THEN conjunct2] by (rule conjunct1)
  have other: "todos ?s' ! 1 = todos storeAB ! 1"
  proof -
    have "1 < length (todos storeAB)" and "id' (todos storeAB ! 1) \<noteq> 1"
      by (simp_all add: storeAB_def taskB_def)
    with frame [THEN conjunct2, THEN conjunct2, THEN conjunct1] show ?thesis by blast
  qed
  have "length (todos storeAB) = 2" and "map id' (todos storeAB) = [1, 2]"
    and "todos storeAB ! 1 = taskB"
    by (simp_all add: storeAB_def taskA_def taskB_def)
  with st len ids other show ?thesis by simp
qed




subsection \<open>Runs of events\<close>

text \<open>
  Where a record of the store after an event comes from: it was there before, or the
  event is a click on \<open>addBtn\<close> that made it, or a click on \<open>.save-btn\<close> or
  \<open>.complete-btn\<close> that wrote to a record of its identifier, or it was fetched.
\<close>

lemma stamped_by_id: "id' r = id' r' \<Longrightarrow> stamped_by e r st = stamped_by e r' st"
  by (induction e r st rule: stamped_by.induct) simp_all

lemma run_Overwritten: "run es (Overwritten marker lines) = Overwritten marker lines"
  by (cases es) simp_all

lemma todos_step_cases:
  assumes st: "step ev s = Typed s'" and mem: "t \<in> set (todos s')"
  shows "t \<in> set (todos s)
     \<or> (\<exists>text now stamp. ev = Add text now stamp \<and> \<not> blank text
           \<and> t = \<lparr>id' = now, title = text, completed = False,
                   completedTime = None, modifiedTime = Some stamp\<rparr>)
     \<or> (\<exists>i newText stamp y. ev = Save i (Text newText) stamp \<and> \<not> blank newText
           \<and> y \<in> set (todos s) \<and> id' y = i
           \<and> t = y\<lparr>title := newText, completedTime := None,
                    completed := False, modifiedTime := Some stamp\<rparr>)
     \<or> (\<exists>i timeString y. ev = Complete i timeString \<and> y \<in> set (todos s) \<and> id' y = i
           \<and> t = y\<lparr>completed := True, completedTime := Some timeString\<rparr>)
     \<or> (\<exists>data. ev = Fetched (FetchOk data) \<and> t \<in> set data)"
proof (cases ev)
  case (Add tx now stamp)
  with st mem show ?thesis by (auto simp: addBtn_click_def split: if_splits)
next
  case (Delete i)
  with st mem show ?thesis by (auto simp: deleteBtn_click_def)
next
  case (Change i)
  with st mem show ?thesis by (auto simp: changeBtn_click_def)
next
  case (Save i input stamp)
  with st have "step (Save i input stamp) s = Typed s'" by simp
  from step_save_cases [OF this] mem
  consider "t \<in> set (todos s)"
    | newText where "input = Text newText" "t \<in> set (todos (save_text i newText stamp s))"
    by auto
  then show ?thesis
  proof cases
    case 1
    then show ?thesis by simp
  next
    case 2
    from 2(2) consider "t \<in> set (todos s)"
      | "\<not> blank newText" and
        "t \<in> set (mutate_found (\<lambda>t. id' t = i)
           (\<lambda>t. t\<lparr>title := newText, completedTime := None,
                  completed := False, modifiedTime := Some stamp\<rparr>) (todos s))"
      by (auto simp: save_text_def split: option.splits if_splits)
    then show ?thesis
    proof cases
      case 1
      then show ?thesis by simp
    next
      case 2
      from set_mutate_found [OF 2(2)] 2(1) Save \<open>input = Text newText\<close> show ?thesis by blast
    qed
  qed
next
  case Cancel
  with st mem show ?thesis by (auto simp: cancelBtn_click_def)
next
  case (Complete i timeString)
  with st mem todos_complete_cases [of i timeString s]
  consider "t \<in> set (todos s)"
    | "t \<in> set (mutate_found (\<lambda>t. id' t = i)
           (\<lambda>t. t\<lparr>completed := True, completedTime := Some timeString\<rparr>) (todos s))"
    by auto
  then show ?thesis
  proof cases
    case 1
    then show ?thesis by simp
  next
    case 2
    from set_mutate_found [OF 2] Complete show ?thesis by blast
  qed
next
  case (Fetched r)
  with st mem show ?thesis
    by (cases r) (auto simp: fetchTodos_def)
qed

lemma step_completion_ok:
  assumes ok: "fetched_completion_ok ev" and inv: "\<forall>t \<in> set (todos s). completion_ok t"
    and st: "step ev s = Typed s'"
  shows "\<forall>t \<in> set (todos s'). completion_ok t"
proof
  fix t assume "t \<in> set (todos s')"
  from todos_step_cases [OF st this] inv ok show "completion_ok t"
    by (auto simp: completion_ok_def list_all_iff)
qed

lemma run_completion_ok:
  "list_all fetched_completion_ok es \<Longrightarrow> \<forall>t \<in> set (todos s). completion_ok t \<Longrightarrow>
     run es (Typed s) = Typed s' \<Longrightarrow> \<forall>t \<in> set (todos s'). completion_ok t"
proof (induction es arbitrary: s)
  case Nil
  then show ?case by simp
next
  case (Cons e es)
  from Cons.prems have ok: "fetched_completion_ok e" and rest: "list_all fetched_completion_ok es"
    by simp_all
  from Cons.prems(3) have r: "run es (step e s) = Typed s'" by simp
  show ?case
  proof (cases "step e s")
    case (Typed s1)
    from step_completion_ok [OF ok Cons.prems(2) Typed]
    have "\<forall>t \<in> set (todos s1). completion_ok t" .
    from Cons.IH [OF rest this] r Typed show ?thesis by simp
  next
    case (Overwritten marker lines)
    with r show ?thesis by (simp add: run_Overwritten)
  qed
qed

text \<open>
  C8, as the code has it. A completion timestamp is present only on a completed
  record (\<open>completion_ok\<close>): every click keeps this true of all records, a fetch does
  when it is true of the fetched records (\<open>fetched_completion_ok\<close>), and it is true of
  all records after every run from the empty store whose fetched records are so.
\<close>

theorem completion_invariant:
  "(list_all fetched_completion_ok es \<and> run es (Typed init) = Typed s \<longrightarrow>
      (\<forall>t \<in> set (todos s). completion_ok t))
   \<and> (fetched_completion_ok ev \<and> (\<forall>t \<in> set (todos s0). completion_ok t)
        \<and> step ev s0 = Typed s1 \<longrightarrow>
        (\<forall>t \<in> set (todos s1). completion_ok t))"
proof -
  have "\<forall>t \<in> set (todos init). completion_ok t" by (simp add: init_def)
  then have "list_all fetched_completion_ok es \<and> run es (Typed init) = Typed s \<longrightarrow>
      (\<forall>t \<in> set (todos s). completion_ok t)"
    by (blast intro: run_completion_ok [rule_format])
  moreover have "fetched_completion_ok ev \<and> (\<forall>t \<in> set (todos s0). completion_ok t)
        \<and> step ev s0 = Typed s1 \<longrightarrow> (\<forall>t \<in> set (todos s1). completion_ok t)"
    by (blast intro: step_completion_ok [rule_format])
  ultimately show ?thesis by (rule conjI)
qed

theorem completion_invariant_witness:
  "list_all fetched_completion_ok [Fetched (FetchOk [taskA, taskB]),
      Save 1 (Text ''C'') ''2023/11/14 22:13:20'', Complete 1 ''2023/11/15 08:00:00'']
   \<and> run [Fetched (FetchOk [taskA, taskB]), Save 1 (Text ''C'') ''2023/11/14 22:13:20'',
      Complete 1 ''2023/11/15 08:00:00''] (Typed init) =
       Typed \<lparr>todos = [\<lparr>id' = 1, title = ''C'', completed = True,
                completedTime = Some ''2023/11/15 08:00:00'',
                modifiedTime = Some ''2023/11/14 22:13:20''\<rparr>, taskB],
              editingId = None, console = []\<rparr>
   \<and> list_all completion_ok
        [\<lparr>id' = 1, title = ''C'', completed = True,
          completedTime = Some ''2023/11/15 08:00:00'',
          modifiedTime = Some ''2023/11/14 22:13:20''\<rparr>, taskB]"
proof -
  let ?es = "[Fetched (FetchOk [taskA, taskB]), Save 1 (Text ''C'') ''2023/11/14 22:13:20'',
      Complete 1 ''2023/11/15 08:00:00'']"
  let ?s = "\<lparr>todos = [\<lparr>id' = 1, title = ''C'', completed = True,
                completedTime = Some ''2023/11/15 08:00:00'',
                modifiedTime = Some ''2023/11/14 22:13:20''\<rparr>, taskB],
              editingId = None, console = []\<rparr>"
  have h: "list_all fetched_completion_ok ?es"
    by (simp add: completion_ok_def taskA_def taskB_def)
  have r: "run ?es (Typed init) = Typed ?s"
    by (simp add: init_def fetchTodos_def saveBtn_click_def save_text_def completeBtn_click_def
        taskA_def taskB_def blank_def trim_def isWhiteSpace_def)
  from completion_invariant [of ?es ?s, THEN conjunct1] h r
  have "\<forall>t \<in> set (todos ?s). completion_ok t" by blast
  then have inv: "list_all completion_ok (todos ?s)"
    by (simp only: list_all_iff)
  from h r inv show ?thesis by simp
qed

text \<open>
  C8, as the specification has it, fails: \<open>fetchTodos\<close> stores what it fetched
  unchecked. From the empty store, where the invariant holds, a fetch of one record
  that has a completion timestamp and is not completed gives a store with that
  record.
\<close>

theorem fetch_stores_stale_completion:
  "list_all completion_ok (todos init)
   \<and> run [Fetched (FetchOk [staleTask])] (Typed init) =
       Typed \<lparr>todos = [staleTask], editingId = None, console = []\<rparr>
   \<and> completedTime staleTask = Some ''2023/11/14 09:00:00''
   \<and> \<not> completed staleTask
   \<and> \<not> completion_ok staleTask"
  by (simp add: init_def fetchTodos_def staleTask_def completion_ok_def)

lemma step_stamped:
  assumes ok: "seed_ok ev"
    and inv: "\<forall>r \<in> set (todos s). \<forall>st. modifiedTime r = Some st \<longrightarrow> (\<exists>e \<in> E. stamped_by e r st)"
    and stp: "step ev s = Typed s'"
  shows "\<forall>r \<in> set (todos s'). \<forall>st. modifiedTime r = Some st \<longrightarrow>
           (\<exists>e \<in> insert ev E. stamped_by e r st)"
proof (intro ballI allI impI)
  fix r st
  assume mem: "r \<in> set (todos s')" and m: "modifiedTime r = Some st"
  from todos_step_cases [OF stp mem]
  consider (old) "r \<in> set (todos s)"
    | (add) tx now stamp where "ev = Add tx now stamp" "\<not> blank tx"
        "r = \<lparr>id' = now, title = tx, completed = False,
              completedTime = None, modifiedTime = Some stamp\<rparr>"
    | (save) i newText stamp y where "ev = Save i (Text newText) stamp" "\<not> blank newText"
        "y \<in> set (todos s)" "id' y = i"
        "r = y\<lparr>title := newText, completedTime := None,
               completed := False, modifiedTime := Some stamp\<rparr>"
    | (complete) i timeString y where "ev = Complete i timeString" "y \<in> set (todos s)"
        "id' y = i" "r = y\<lparr>completed := True, completedTime := Some timeString\<rparr>"
    | (seed) data where "ev = Fetched (FetchOk data)" "r \<in> set data"
    by blast
  then show "\<exists>e \<in> insert ev E. stamped_by e r st"
  proof cases
    case old
    with inv m show ?thesis by blast
  next
    case add
    with m have "stamped_by ev r st" by simp
    then show ?thesis by blast
  next
    case save
    with m have "stamped_by ev r st" by simp
    then show ?thesis by blast
  next
    case complete
    with m have "modifiedTime y = Some st" and same: "id' y = id' r" by simp_all
    with inv complete(2) obtain e where "e \<in> E" "stamped_by e y st" by blast
    with stamped_by_id [OF same, of e st] show ?thesis by blast
  next
    case seed
    with ok have "seed_shape r" by (simp add: list_all_iff)
    with m show ?thesis by (simp add: seed_shape_def)
  qed
qed

lemma run_stamped:
  "list_all seed_ok es \<Longrightarrow>
     \<forall>r \<in> set (todos s). \<forall>st. modifiedTime r = Some st \<longrightarrow> (\<exists>e \<in> E. stamped_by e r st) \<Longrightarrow>
     run es (Typed s) = Typed s' \<Longrightarrow>
     \<forall>r \<in> set (todos s'). \<forall>st. modifiedTime r = Some st \<longrightarrow>
        (\<exists>e \<in> E \<union> set es. stamped_by e r st)"
proof (induction es arbitrary: s E)
  case Nil
  then show ?case by simp
next
  case (Cons e es)
  from Cons.prems have ok: "seed_ok e" and rest: "list_all seed_ok es" by simp_all
  from Cons.prems(3) have r: "run es (step e s) = Typed s'" by simp
  show ?case
  proof (cases "step e s")
    case (Typed s1)
    from step_stamped [OF ok Cons.prems(2) Typed]
    have "\<forall>r \<in> set (todos s1). \<forall>st. modifiedTime r = Some st \<longrightarrow>
           (\<exists>e' \<in> insert e E. stamped_by e' r st)" .
    from Cons.IH [OF rest this] r Typed show ?thesis by simp
  next
    case (Overwritten marker lines)
    with r show ?thesis by (simp add: run_Overwritten)
  qed
qed

text \<open>
  C2, as the code has it. A click on \<open>addBtn\<close> creates the record with its modified
  timestamp set. After every run from the empty store, a record with a modified
  timestamp \<open>st\<close> got it from an event of the run: the click on \<open>addBtn\<close> that
  created a record of its identifier, or a click on the \<open>.save-btn\<close> of its
  identifier, with text that is not blank. The fetched records are those of the
  endpoint, which carry no timestamp.
\<close>

theorem modified_only_by_add_or_save:
  "(\<not> blank text \<longrightarrow>
      modifiedTime (last (todos (addBtn_click text now stamp s))) = Some stamp)
   \<and> (list_all seed_ok es \<and> run es (Typed init) = Typed s' \<and> r \<in> set (todos s')
        \<and> modifiedTime r = Some st \<longrightarrow>
        (\<exists>e \<in> set es. stamped_by e r st))"
proof -
  have "\<forall>r \<in> set (todos init). \<forall>st. modifiedTime r = Some st \<longrightarrow> (\<exists>e \<in> {}. stamped_by e r st)"
    by (simp add: init_def)
  from run_stamped [OF _ this]
  have "list_all seed_ok es \<Longrightarrow> run es (Typed init) = Typed s' \<Longrightarrow>
        \<forall>r \<in> set (todos s'). \<forall>st.
          modifiedTime r = Some st \<longrightarrow> (\<exists>e \<in> {} \<union> set es. stamped_by e r st)" .
  then have "list_all seed_ok es \<and> run es (Typed init) = Typed s' \<and> r \<in> set (todos s')
        \<and> modifiedTime r = Some st \<longrightarrow> (\<exists>e \<in> set es. stamped_by e r st)"
    by simp
  moreover have "\<not> blank text \<longrightarrow>
      modifiedTime (last (todos (addBtn_click text now stamp s))) = Some stamp"
    by (simp add: addBtn_click_def)
  ultimately show ?thesis by simp
qed

theorem modified_only_by_add_or_save_witness:
  "\<not> blank ''C''
   \<and> list_all seed_ok [Fetched (FetchOk [taskA]), Save 1 (Text ''C'') ''2023/11/14 22:13:20'']
   \<and> run [Fetched (FetchOk [taskA]), Save 1 (Text ''C'') ''2023/11/14 22:13:20''] (Typed init) =
       Typed \<lparr>todos = [\<lparr>id' = 1, title = ''C'', completed = False, completedTime = None,
                modifiedTime = Some ''2023/11/14 22:13:20''\<rparr>],
              editingId = None, console = []\<rparr>
   \<and> (\<exists>e \<in> set [Fetched (FetchOk [taskA]), Save 1 (Text ''C'') ''2023/11/14 22:13:20''].
        stamped_by e \<lparr>id' = 1, title = ''C'', completed = False, completedTime = None,
          modifiedTime = Some ''2023/11/14 22:13:20''\<rparr> ''2023/11/14 22:13:20'')
   \<and> modifiedTime (last (todos (addBtn_click ''C'' 1700000000000 ''2023/11/14 22:13:20'' storeA)))
       = Some ''2023/11/14 22:13:20''"
proof -
  let ?es = "[Fetched (FetchOk [taskA]), Save 1 (Text ''C'') ''2023/11/14 22:13:20'']"
  let ?r = "\<lparr>id' = 1, title = ''C'', completed = False, completedTime = None,
       modifiedTime = Some ''2023/11/14 22:13:20''\<rparr>"
  let ?s = "\<lparr>todos = [?r], editingId = None, console = []\<rparr>"
  have nb: "\<not> blank ''C''"
    by (simp add: blank_def trim_def isWhiteSpace_def)
  have h: "list_all seed_ok ?es"
    by (simp add: seed_shape_def taskA_def)
  have rn: "run ?es (Typed init) = Typed ?s"
    using nb by (simp add: init_def fetchTodos_def saveBtn_click_def save_text_def taskA_def)
  have mem: "?r \<in> set (todos ?s)" by simp
  have m: "modifiedTime ?r = Some ''2023/11/14 22:13:20''" by simp
  note inst = modified_only_by_add_or_save [of "''C''" 1700000000000 "''2023/11/14 22:13:20''"
      storeA ?es ?s ?r "''2023/11/14 22:13:20''"]
  from inst [THEN conjunct2] h rn mem m
  have ex: "\<exists>e \<in> set ?es. stamped_by e ?r ''2023/11/14 22:13:20''" by blast
  from inst [THEN conjunct1] nb
  have fresh: "modifiedTime (last (todos (addBtn_click ''C'' 1700000000000
      ''2023/11/14 22:13:20'' storeA))) = Some ''2023/11/14 22:13:20''" by blast
  from nb h rn ex fresh show ?thesis by (intro conjI)
qed

text \<open>
  C2, as the specification has it, fails: after one click on \<open>addBtn\<close> and no edit,
  the one record of the store has a modified timestamp.
\<close>

theorem add_sets_modifiedTime:
  "run [Add ''buy milk'' 1700000000000 ''2023/11/14 22:13:20''] (Typed init) =
     Typed \<lparr>todos = [\<lparr>id' = 1700000000000, title = ''buy milk'', completed = False,
              completedTime = None, modifiedTime = Some ''2023/11/14 22:13:20''\<rparr>],
            editingId = None, console = []\<rparr>
   \<and> modifiedTime (last (todos (addBtn_click ''buy milk'' 1700000000000
        ''2023/11/14 22:13:20'' init))) \<noteq> None"
  by (simp add: init_def addBtn_click_def blank_def trim_def isWhiteSpace_def)

text \<open>
  Identifiers stay distinct over an event, provided a click on \<open>addBtn\<close> reads from
  \<open>Date.now()\<close> a value that no record has as its identifier, and a fetched list has
  distinct identifiers.
\<close>

lemma distinct_ids_step:
  assumes d: "distinct (map id' (todos s))"
    and fresh: "\<And>text now stamp. ev = Add text now stamp \<Longrightarrow> now \<notin> id' ` set (todos s)"
    and seed: "\<And>data. ev = Fetched (FetchOk data) \<Longrightarrow> distinct (map id' data)"
    and st: "step ev s = Typed s'"
  shows "distinct (map id' (todos s'))"
proof (cases ev)
  case (Add tx now stamp)
  with d fresh [OF Add] st show ?thesis by (auto simp: addBtn_click_def)
next
  case (Delete i)
  with d st show ?thesis by (auto simp: deleteBtn_click_def distinct_map_filter)
next
  case (Change i)
  with d st show ?thesis by (auto simp: changeBtn_click_def)
next
  case (Save i input stamp)
  with st have "step (Save i input stamp) s = Typed s'" by simp
  from step_save_cases [OF this] consider "todos s' = todos s"
    | newText where "s' = save_text i newText stamp s"
    by auto
  then have "map id' (todos s') = map id' (todos s)"
  proof cases
    case 1
    then show ?thesis by simp
  next
    case 2
    with todos_save_cases [of i newText stamp s] show ?thesis
      by (auto simp: map_id_mutate_found)
  qed
  with d show ?thesis by simp
next
  case Cancel
  with d st show ?thesis by (auto simp: cancelBtn_click_def)
next
  case (Complete i timeString)
  have "map id' (todos (completeBtn_click i timeString s)) = map id' (todos s)"
    using todos_complete_cases [of i timeString s] by (auto simp: map_id_mutate_found)
  with d Complete st show ?thesis by auto
next
  case (Fetched r)
  with d seed st show ?thesis by (cases r) (auto simp: fetchTodos_def)
qed

text \<open>
  C3. \<open>Date.now()\<close> counts milliseconds of the wall clock: two clicks on \<open>addBtn\<close>
  can read the same value, and a later click a smaller one when the clock was set
  back. Then two records of the store have the same identifier, or the identifiers
  do not increase in creation order.
\<close>

theorem add_same_clock_reading_duplicates:
  "run [Add ''buy milk'' 1700000000000 ''2023/11/14 22:13:20'',
        Add ''buy eggs'' 1700000000000 ''2023/11/14 22:13:20''] (Typed init) =
     Typed (addBtn_click ''buy eggs'' 1700000000000 ''2023/11/14 22:13:20''
             (addBtn_click ''buy milk'' 1700000000000 ''2023/11/14 22:13:20'' init))
   \<and> map id' (todos (addBtn_click ''buy eggs'' 1700000000000 ''2023/11/14 22:13:20''
        (addBtn_click ''buy milk'' 1700000000000 ''2023/11/14 22:13:20'' init)))
     = [1700000000000, 1700000000000]
   \<and> \<not> distinct (map id' (todos (addBtn_click ''buy eggs'' 1700000000000 ''2023/11/14 22:13:20''
        (addBtn_click ''buy milk'' 1700000000000 ''2023/11/14 22:13:20'' init))))
   \<and> map id' (todos (addBtn_click ''buy eggs'' 1699999999000 ''2023/11/14 22:13:19''
        (addBtn_click ''buy milk'' 1700000000000 ''2023/11/14 22:13:20'' init)))
     = [1700000000000, 1699999999000]"
  by (simp add: init_def addBtn_click_def blank_def trim_def isWhiteSpace_def)

end
